theory Spec2Isabelle
  imports Main "HOL-Library.Word" "HOL-Library.Char_ord" "HOL-Library.List_Lexorder"
begin

section \<open>The \<open>load\<close> command of JuiceFS: decode pipeline and backup inspector\<close>

text \<open>
  This theory embeds \<^verbatim>\<open>cmd/load.go\<close>: the composed reader and its \<^verbatim>\<open>Close\<close>,
  \<^verbatim>\<open>open\<close>, \<^verbatim>\<open>convert\<close>, \<^verbatim>\<open>statBak\<close>, \<^verbatim>\<open>showBakSummary\<close> and \<^verbatim>\<open>showBakDetail\<close>.
  Go strings are byte sequences, so paths, keys and file contents are \<open>string\<close>.
  The file system, the process environment, the table of open streams and the
  sequence of system-level operations performed so far form an explicit \<open>world\<close>
  that every operation takes and returns. Of the file system the world records
  the files and their bytes, the paths that cannot be read or created, and for
  each path how many bytes a copy can write to it before a write fails
  (\<open>None\<close>: no limit).
\<close>

subsection \<open>String functions of the Go standard library\<close>

type_synonym path = string
type_synonym bytes = string

text \<open>\<^verbatim>\<open>strings.HasSuffix\<close>: \<^verbatim>\<open>len(s) >= len(suffix) && s[len(s)-len(suffix):] == suffix\<close>.\<close>

definition HasSuffix :: "string \<Rightarrow> string \<Rightarrow> bool" where
  "HasSuffix s suffix \<longleftrightarrow>
     length suffix \<le> length s \<and> drop (length s - length suffix) s = suffix"

text \<open>\<^verbatim>\<open>strings.HasPrefix\<close> and \<^verbatim>\<open>strings.Contains\<close>.\<close>

definition HasPrefix :: "string \<Rightarrow> string \<Rightarrow> bool" where
  "HasPrefix s p \<longleftrightarrow> length p \<le> length s \<and> take (length p) s = p"

fun Contains :: "string \<Rightarrow> string \<Rightarrow> bool" where
  "Contains [] substr = (substr = [])"
| "Contains (c # cs) substr = (HasPrefix (c # cs) substr \<or> Contains cs substr)"

text \<open>
  \<^verbatim>\<open>strings.LastIndex(s, ".")\<close> for a one-byte separator: the index of the last
  occurrence of the byte, or \<open>-1\<close> when there is none.
\<close>

fun LastIndex :: "string \<Rightarrow> char \<Rightarrow> int" where
  "LastIndex [] c = - 1"
| "LastIndex (x # xs) c =
     (let r = LastIndex xs c in
      if 0 \<le> r then r + 1 else if x = c then 0 else - 1)"

text \<open>
  The slice expression \<^verbatim>\<open>s[:i]\<close>. Go panics at run time when the bound is negative
  or exceeds the length; \<open>None\<close> is that panic.
\<close>

definition slice_to :: "string \<Rightarrow> int \<Rightarrow> string option" where
  "slice_to s i = (if i < 0 \<or> int (length s) < i then None else Some (take (nat i) s))"

text \<open>\<^verbatim>\<open>strings.TrimSuffix\<close> and \<^verbatim>\<open>filepath.Base\<close> (Unix separator).\<close>

definition TrimSuffix :: "string \<Rightarrow> string \<Rightarrow> string" where
  "TrimSuffix s suffix =
     (if HasSuffix s suffix then take (length s - length suffix) s else s)"

definition Base :: "path \<Rightarrow> string" where
  "Base p =
     (if p = [] then ''.''
      else let q = rev (dropWhile (\<lambda>c. c = CHR ''/'') (rev p));
               b = rev (takeWhile (\<lambda>c. c \<noteq> CHR ''/'') (rev q))
           in if b = [] then ''/'' else b)"

subsection \<open>Errors, streams and the world\<close>

datatype error =
    ErrPassphraseRequired
  | ErrParseRsa string
  | ErrExternal string
  | ErrStat path error
  | ErrAbs path error
  | ErrNotExist path
  | ErrPermission path
  | ErrGzipHeader
  | ErrCorruptInput
  | ErrChecksum
  | ErrNoSpace
  | ErrClosed
  | ErrInvalidArgument
  | ErrCreatePlain path error
  | ErrConvert path path error
  | ErrOpenFile path error
  | ErrReadFooter error
  | ErrReadSegment error

text \<open>
  A handle is an index into the table of streams. Each stream records what it is,
  the bytes that reading it to the end yields, the error (if any) that ends the
  read in place of end-of-file, the error a decoder has run into so far, the
  file offset (moved by \<^verbatim>\<open>Seek\<close>), and whether it has been closed.
\<close>

type_synonym handle = nat

datatype kind =
    KFile path
  | KBlob string
  | KGzip handle
  | KZstd handle
  | KWriter path

record stream =
  kind :: kind
  content :: bytes
  rfail :: "error option"
  sticky :: "error option"
  pos :: nat
  closed :: bool

datatype event =
    EvLoadKey string
  | EvParseKey
  | EvNewEncryptor
  | EvStat path
  | EvGet string
  | EvOpen path
  | EvCreate path
  | EvCopy handle handle
  | EvClose handle
  | EvReadFooter handle
  | EvSeek handle int
  | EvReadSegment handle nat

record world =
  files :: "path \<rightharpoonup> bytes"
  noread :: "path set"
  nocreate :: "path set"
  wlimit :: "path \<Rightarrow> nat option"
  passphrase :: string
  streams :: "stream list"
  log :: "event list"
  stdout :: string

definition emit :: "world \<Rightarrow> event \<Rightarrow> world" where
  "emit w e = w\<lparr>log := log w @ [e]\<rparr>"

definition alloc :: "world \<Rightarrow> kind \<Rightarrow> bytes \<Rightarrow> error option \<Rightarrow> world \<times> handle" where
  "alloc w k d f =
     (w\<lparr>streams := streams w @
          [\<lparr>kind = k, content = d, rfail = f, sticky = None, pos = 0,
            closed = False\<rparr>]\<rparr>,
      length (streams w))"

text \<open>The outcome of a Go call: a run-time panic, or a normal return.\<close>

datatype 'a exec = Panics | Returns 'a

subsection \<open>Collaborators outside the file\<close>

text \<open>
  The PEM block of \<^verbatim>\<open>encoding/pem\<close>; reading a missing key of a Go map gives the
  empty string. \<^verbatim>\<open>x509.IsEncryptedPEMBlock\<close> reports whether the block has a
  \<^verbatim>\<open>DEK-Info\<close> header.
\<close>

record pem_Block =
  Type :: string
  Headers :: "string \<rightharpoonup> string"
  Bytes :: bytes

definition header :: "pem_Block \<Rightarrow> string \<Rightarrow> string" where
  "header b k = (case Headers b k of None \<Rightarrow> [] | Some v \<Rightarrow> v)"

definition IsEncryptedPEMBlock :: "pem_Block \<Rightarrow> bool" where
  "IsEncryptedPEMBlock b \<longleftrightarrow> Headers b ''DEK-Info'' \<noteq> None"

text \<open>
  The functions \<^verbatim>\<open>open\<close> calls in other packages are parameters of the model:
  the key loader, the PEM decoder, the RSA key parser, the encryptor constructor,
  \<^verbatim>\<open>filepath.Abs\<close>, the storage constructor, the encrypted \<^verbatim>\<open>Get\<close> (which yields the
  plaintext and the error that ends it, if any), the two decoders, and the two
  readers of \<^verbatim>\<open>meta.BakFormat\<close>. The gzip constructor reads the header and may fail;
  the zstd constructor cannot. \<^verbatim>\<open>ReadSegment\<close> is given the file's bytes and its
  offset and returns the segment with the number of bytes it took.
\<close>

text \<open>
  Modelled from the spec: the types of \<^verbatim>\<open>pkg/meta\<close> are not part of the file. The
  footer is "version: integer, segmentIndex: mapping from segment name to count:
  integer, offset: int64". The association list stands for the Go map in the
  order its iteration happens to take; a segment has a name and a printable value.
\<close>

record SegInfo =
  Num :: int
  Offset :: int

record Footer =
  Version :: int
  Infos :: "(string \<times> SegInfo) list"

record segment =
  Name :: string
  String :: string

type_synonym privkey = string
type_synonym encryptor = "string \<times> string"
type_synonym storage = string

record ext =
  loadEncrypt :: "string \<Rightarrow> string"
  pem_Decode :: "string \<Rightarrow> pem_Block option"
  ParseRsaPrivateKeyFromPem :: "string \<Rightarrow> string \<Rightarrow> string + privkey"
  NewDataEncryptor :: "privkey \<Rightarrow> string \<Rightarrow> error + encryptor"
  filepath_Abs :: "path \<Rightarrow> error + path"
  CreateStorage :: "string \<Rightarrow> error + storage"
  blob_Get :: "storage \<Rightarrow> encryptor \<Rightarrow> (path \<rightharpoonup> bytes) \<Rightarrow> string
                 \<Rightarrow> error + bytes \<times> error option"
  gzip_NewReader :: "bytes \<Rightarrow> error + bytes \<times> error option"
  zstd_NewReader :: "bytes \<Rightarrow> bytes \<times> error option"
  ReadFooter :: "bytes \<Rightarrow> error + Footer"
  ReadSegment :: "bytes \<Rightarrow> nat \<Rightarrow> error + segment \<times> nat"

text \<open>
  Modelled from the spec: \<^verbatim>\<open>utils.Exists\<close> is not part of the file; the spec says
  the conversion is skipped "if a file already exists at plainPath".
\<close>

definition Exists :: "world \<Rightarrow> path \<Rightarrow> bool" where
  "Exists w p \<longleftrightarrow> files w p \<noteq> None"

subsection \<open>Operating-system calls\<close>

text \<open>\<^verbatim>\<open>os.Stat\<close>: succeeds exactly on an existing file.\<close>

definition os_Stat :: "world \<Rightarrow> path \<Rightarrow> world \<times> error option" where
  "os_Stat w p =
     (emit w (EvStat p), if files w p = None then Some (ErrNotExist p) else None)"

text \<open>\<^verbatim>\<open>os.Open\<close>: opens an existing, readable file for reading.\<close>

definition os_Open :: "world \<Rightarrow> path \<Rightarrow> world \<times> (error + handle)" where
  "os_Open w p =
     (let w1 = emit w (EvOpen p) in
      case files w p of
        None \<Rightarrow> (w1, Inl (ErrNotExist p))
      | Some d \<Rightarrow>
          if p \<in> noread w then (w1, Inl (ErrPermission p))
          else (case alloc w1 (KFile p) d None of (w2, h) \<Rightarrow> (w2, Inr h)))"

text \<open>
  \<^verbatim>\<open>os.Create\<close> is \<^verbatim>\<open>OpenFile(name, O_RDWR|O_CREATE|O_TRUNC, 0666)\<close>: it creates the
  file, or truncates it when it exists already.
\<close>

definition os_Create :: "world \<Rightarrow> path \<Rightarrow> world \<times> (error + handle)" where
  "os_Create w p =
     (let w1 = emit w (EvCreate p) in
      if p = [] then (w1, Inl (ErrNotExist p))
      else if p \<in> nocreate w then (w1, Inl (ErrPermission p))
      else (case alloc (w1\<lparr>files := (files w1)(p \<mapsto> [])\<rparr>) (KWriter p) [] None of
              (w2, h) \<Rightarrow> (w2, Inr h)))"

text \<open>
  \<^verbatim>\<open>Close\<close> of one layer. A file reports \<^verbatim>\<open>os.ErrClosed\<close> when closed already. The
  gzip and zstd readers do not close the stream under them. The gzip reader's
  \<^verbatim>\<open>Close\<close> returns the error its decompressor has kept (\<^verbatim>\<open>flate\<close>: \<^verbatim>\<open>return f.err\<close>
  unless it is \<^verbatim>\<open>io.EOF\<close>). The zstd reader's \<^verbatim>\<open>Close\<close> frees the decoder and returns
  no error, also after a failed read; a second \<^verbatim>\<open>Close\<close> reports that it is closed.
  The stream that the encrypted \<^verbatim>\<open>Get\<close> returns closes without error.
\<close>

definition mark_closed :: "world \<Rightarrow> handle \<Rightarrow> world" where
  "mark_closed w h = w\<lparr>streams := (streams w)[h := (streams w ! h)\<lparr>closed := True\<rparr>]\<rparr>"

definition close_layer :: "world \<Rightarrow> handle \<Rightarrow> world \<times> error option" where
  "close_layer w h =
     (let w1 = emit w (EvClose h) in
      if length (streams w) \<le> h then (w1, Some ErrInvalidArgument)
      else let s = streams w ! h in
        case kind s of
          KFile p \<Rightarrow> if closed s then (w1, Some ErrClosed) else (mark_closed w1 h, None)
        | KWriter p \<Rightarrow> if closed s then (w1, Some ErrClosed) else (mark_closed w1 h, None)
        | KBlob n \<Rightarrow> (mark_closed w1 h, None)
        | KGzip u \<Rightarrow> (mark_closed w1 h, sticky s)
        | KZstd u \<Rightarrow> if closed s then (w1, Some ErrClosed) else (mark_closed w1 h, None))"

subsection \<open>The composed reader\<close>

record reader =
  encryptR :: handle
  compressR :: handle

text \<open>
  \<^verbatim>\<open>func (r *reader) Close() error\<close>: close the compression layer, return its error
  if it has one, and otherwise close the encryption layer when it is another
  object.
\<close>

definition reader_Close :: "world \<Rightarrow> reader \<Rightarrow> world \<times> error option" where
  "reader_Close w r =
     (case close_layer w (compressR r) of
        (w1, Some err) \<Rightarrow> (w1, Some err)
      | (w1, None) \<Rightarrow>
          if encryptR r \<noteq> compressR r then close_layer w1 (encryptR r)
          else (w1, None))"

text \<open>\<^verbatim>\<open>func (r *reader) Read\<close> delegates to the compression layer.\<close>

definition reader_source :: "reader \<Rightarrow> handle" where
  "reader_source r = compressR r"

subsection \<open>\<^verbatim>\<open>open\<close>\<close>

text \<open>
  The check made when no passphrase is set: the key decodes to a PEM block whose
  \<^verbatim>\<open>Proc-Type\<close> header contains \<^verbatim>\<open>ENCRYPTED\<close> and which \<^verbatim>\<open>x509\<close> reports as encrypted.
\<close>

definition needs_passphrase :: "ext \<Rightarrow> string \<Rightarrow> bool" where
  "needs_passphrase X encryptKey =
     (case pem_Decode X encryptKey of
        None \<Rightarrow> False
      | Some block \<Rightarrow>
          Contains (header block ''Proc-Type'') ''ENCRYPTED'' \<and> IsEncryptedPEMBlock block)"

text \<open>The branch \<^verbatim>\<open>key != ""\<close> of \<^verbatim>\<open>open\<close>, up to the assignment of \<^verbatim>\<open>fp, ioErr\<close>.\<close>

definition open_encrypted ::
  "ext \<Rightarrow> world \<Rightarrow> path \<Rightarrow> string \<Rightarrow> string \<Rightarrow> world \<times> (error + handle)" where
  "open_encrypted X w src key algo =
     (let w1 = emit w (EvLoadKey key);
          encryptKey = loadEncrypt X key
      in
      if passphrase w = [] \<and> needs_passphrase X encryptKey
      then (w1, Inl ErrPassphraseRequired)
      else
        let w2 = emit w1 EvParseKey in
        case ParseRsaPrivateKeyFromPem X encryptKey (passphrase w) of
          Inl msg \<Rightarrow> (w2, Inl (ErrParseRsa msg))
        | Inr privKey \<Rightarrow>
            let w3 = emit w2 EvNewEncryptor in
            (case NewDataEncryptor X privKey algo of
               Inl err \<Rightarrow> (w3, Inl err)
             | Inr encryptor \<Rightarrow>
                 (case os_Stat w3 src of
                    (w4, Some err) \<Rightarrow> (w4, Inl (ErrStat src err))
                  | (w4, None) \<Rightarrow>
                      (case filepath_Abs X src of
                         Inl err \<Rightarrow> (w4, Inl (ErrAbs src err))
                       | Inr srcAbsPath \<Rightarrow>
                           (case CreateStorage X (TrimSuffix src (Base srcAbsPath)) of
                              Inl err \<Rightarrow> (w4, Inl err)
                            | Inr fileBlob \<Rightarrow>
                                let w5 = emit w4 (EvGet (Base srcAbsPath)) in
                                (case blob_Get X fileBlob encryptor (files w)
                                        (Base srcAbsPath) of
                                   Inl err \<Rightarrow> (w5, Inl err)
                                 | Inr (d, f) \<Rightarrow>
                                     (case alloc w5 (KBlob (Base srcAbsPath)) d f of
                                        (w6, h) \<Rightarrow> (w6, Inr h))))))))"

text \<open>
  \<^verbatim>\<open>open\<close>: obtain the base stream \<^verbatim>\<open>fp\<close>, then choose the compression layer from
  the suffix of \<^verbatim>\<open>src\<close>. When \<^verbatim>\<open>gzip.NewReader\<close> fails the function returns the error;
  \<^verbatim>\<open>fp\<close> stays as it is.
\<close>

definition open_src ::
  "ext \<Rightarrow> world \<Rightarrow> path \<Rightarrow> string \<Rightarrow> string \<Rightarrow> world \<times> (error + reader)" where
  "open_src X w src key algo =
     (case (if key \<noteq> [] then open_encrypted X w src key algo else os_Open w src) of
        (w1, Inl ioErr) \<Rightarrow> (w1, Inl ioErr)
      | (w1, Inr fp) \<Rightarrow>
          if HasSuffix src ''.gz'' then
            (case gzip_NewReader X (content (streams w1 ! fp)) of
               Inl err \<Rightarrow> (w1, Inl err)
             | Inr (d, f) \<Rightarrow>
                 (case alloc w1 (KGzip fp) d f of
                    (w2, r) \<Rightarrow> (w2, Inr \<lparr>encryptR = fp, compressR = r\<rparr>)))
          else if HasSuffix src ''.zstd'' then
            (case zstd_NewReader X (content (streams w1 ! fp)) of
               (d, f) \<Rightarrow>
                 (case alloc w1 (KZstd fp) d f of
                    (w2, r) \<Rightarrow> (w2, Inr \<lparr>encryptR = fp, compressR = r\<rparr>)))
          else (w1, Inr \<lparr>encryptR = fp, compressR = fp\<rparr>))"

subsection \<open>\<^verbatim>\<open>convert\<close>\<close>

text \<open>
  An error of the gzip layer itself (a bad header, a checksum or size that does
  not match the trailer) is reported by \<^verbatim>\<open>Read\<close> only. An error of the decompressor
  under it (corrupt or truncated data) is kept by the decompressor, and the gzip
  reader's \<^verbatim>\<open>Close\<close> returns it again. No other stream keeps a read error.
\<close>

fun gzip_level :: "error \<Rightarrow> bool" where
  "gzip_level ErrGzipHeader = True"
| "gzip_level ErrChecksum = True"
| "gzip_level e = False"

definition kept_error :: "stream \<Rightarrow> error option" where
  "kept_error s =
     (case kind s of
        KGzip u \<Rightarrow>
          (case rfail s of
             None \<Rightarrow> None
           | Some e \<Rightarrow> if gzip_level e then None else Some e)
      | _ \<Rightarrow> None)"

text \<open>
  \<^verbatim>\<open>io.Copy(w, r)\<close>: what the reader yields is appended to the file behind the
  writer, until the reader ends (with end-of-file or with an error) or a write
  fails. When the file system takes fewer bytes than the reader has, the write
  fails: the bytes taken are in the file, the rest stays unread, and the write
  error is returned. Otherwise everything is written, and the error that ended
  the read, if any, is returned.
\<close>

definition io_Copy :: "world \<Rightarrow> handle \<Rightarrow> reader \<Rightarrow> world \<times> error option" where
  "io_Copy w wh r =
     (let c = reader_source r;
          s = streams w ! c;
          w1 = emit w (EvCopy wh c)
      in
      case kind (streams w ! wh) of
        KWriter p \<Rightarrow>
          let old = (case files w1 p of None \<Rightarrow> [] | Some b \<Rightarrow> b) in
          (case wlimit w p of
             None \<Rightarrow>
               (w1\<lparr>files := (files w1)(p \<mapsto> old @ content s),
                   streams := (streams w1)[c := s\<lparr>content := [], sticky := kept_error s\<rparr>]\<rparr>,
                rfail s)
           | Some n \<Rightarrow>
               if n < length (content s)
               then (w1\<lparr>files := (files w1)(p \<mapsto> old @ take n (content s)),
                        streams := (streams w1)[c := s\<lparr>content := drop n (content s)\<rparr>]\<rparr>,
                     Some ErrNoSpace)
               else (w1\<lparr>files := (files w1)(p \<mapsto> old @ content s),
                        streams := (streams w1)[c := s\<lparr>content := [], sticky := kept_error s\<rparr>]\<rparr>,
                     rfail s))
      | _ \<Rightarrow> (w1, Some ErrInvalidArgument))"

text \<open>
  The part of \<^verbatim>\<open>convert\<close> after the existence check: open the source, create the
  plain file, copy. The deferred calls run in reverse order of their \<^verbatim>\<open>defer\<close>
  statements: \<^verbatim>\<open>w.Close()\<close> first, then \<^verbatim>\<open>r.Close()\<close>; their results are dropped.
\<close>

definition convert_miss ::
  "ext \<Rightarrow> world \<Rightarrow> path \<Rightarrow> path \<Rightarrow> string \<Rightarrow> string \<Rightarrow> world \<times> (error + path)" where
  "convert_miss X w path nPath key algo =
     (case open_src X w path key algo of
        (w1, Inl err) \<Rightarrow> (w1, Inl err)
      | (w1, Inr r) \<Rightarrow>
          (case os_Create w1 nPath of
             (w2, Inl err) \<Rightarrow> (fst (reader_Close w2 r), Inl (ErrCreatePlain nPath err))
           | (w2, Inr wh) \<Rightarrow>
               (case io_Copy w2 wh r of
                  (w3, cerr) \<Rightarrow>
                    let w4 = fst (close_layer w3 wh);
                        w5 = fst (reader_Close w4 r)
                    in (w5, case cerr of
                              Some err \<Rightarrow> Inl (ErrConvert path nPath err)
                            | None \<Rightarrow> Inr nPath))))"

definition isCompress :: "path \<Rightarrow> bool" where
  "isCompress path \<longleftrightarrow> HasSuffix path ''.gz'' \<or> HasSuffix path ''.zstd''"

definition convert ::
  "ext \<Rightarrow> world \<Rightarrow> path \<Rightarrow> string \<Rightarrow> string \<Rightarrow> world \<times> (error + path) exec" where
  "convert X w path key algo =
     (if key = [] \<and> \<not> isCompress path then (w, Returns (Inr path))
      else
        case slice_to path (LastIndex path CHR ''.'') of
          None \<Rightarrow> (w, Panics)
        | Some nPath \<Rightarrow>
            if Exists w nPath then (w, Returns (Inr nPath))
            else (case convert_miss X w path nPath key algo of
                    (w', res) \<Rightarrow> (w', Returns res)))"

subsection \<open>\<^verbatim>\<open>statBak\<close>, \<^verbatim>\<open>showBakSummary\<close>, \<^verbatim>\<open>showBakDetail\<close>\<close>

text \<open>
  The command-line context, as far as \<^verbatim>\<open>statBak\<close> reads it: the \<^verbatim>\<open>offset\<close> flag is
  an \<^verbatim>\<open>int64\<close> that may be unset; \<^verbatim>\<open>ctx.Int64\<close> of an unset flag is 0.
\<close>

record ctx =
  offset_flag :: "64 word option"

definition IsSet_offset :: "ctx \<Rightarrow> bool" where
  "IsSet_offset c \<longleftrightarrow> offset_flag c \<noteq> None"

definition Int64_offset :: "ctx \<Rightarrow> 64 word" where
  "Int64_offset c = (case offset_flag c of None \<Rightarrow> 0 | Some v \<Rightarrow> v)"

text \<open>
  Formatting: \<^verbatim>\<open>%d\<close> of an integer, and \<^verbatim>\<open>%-10s\<close>, which pads on the right up to a
  width counted in runes (\<^verbatim>\<open>utf8.RuneCountInString\<close>). A rune is one byte below
  \<open>0x80\<close>, or a well-formed UTF-8 sequence of two to four bytes, or else a single
  byte; \<open>rune_first\<close> gives, for a leading byte, the length of the sequence and the
  range its second byte must lie in.
\<close>

definition rune_first :: "nat \<Rightarrow> (nat \<times> nat \<times> nat) option" where
  "rune_first c =
     (if 0xC2 \<le> c \<and> c \<le> 0xDF then Some (2, 0x80, 0xBF)
      else if c = 0xE0 then Some (3, 0xA0, 0xBF)
      else if 0xE1 \<le> c \<and> c \<le> 0xEC then Some (3, 0x80, 0xBF)
      else if c = 0xED then Some (3, 0x80, 0x9F)
      else if c = 0xEE \<or> c = 0xEF then Some (3, 0x80, 0xBF)
      else if c = 0xF0 then Some (4, 0x90, 0xBF)
      else if 0xF1 \<le> c \<and> c \<le> 0xF3 then Some (4, 0x80, 0xBF)
      else if c = 0xF4 then Some (4, 0x80, 0x8F)
      else None)"

definition continuation :: "nat \<Rightarrow> bool" where
  "continuation b \<longleftrightarrow> 0x80 \<le> b \<and> b \<le> 0xBF"

definition rune_size :: "string \<Rightarrow> nat" where
  "rune_size s =
     (case s of
        [] \<Rightarrow> 1
      | c # cs \<Rightarrow>
          if of_char c < (0x80 :: nat) then 1
          else (case rune_first (of_char c) of
                  None \<Rightarrow> 1
                | Some (n, lo, hi) \<Rightarrow>
                    if length s < n then 1
                    else if of_char (s ! 1) < lo \<or> hi < of_char (s ! 1) then 1
                    else if n = 2 then 2
                    else if \<not> continuation (of_char (s ! 2)) then 1
                    else if n = 3 then 3
                    else if \<not> continuation (of_char (s ! 3)) then 1
                    else 4))"

function RuneCountInString :: "string \<Rightarrow> nat" where
  "RuneCountInString [] = 0"
| "RuneCountInString (c # cs) = Suc (RuneCountInString (drop (rune_size (c # cs) - 1) cs))"
  by pat_completeness auto
termination
  by (relation "measure length") auto

fun decimal :: "nat \<Rightarrow> string" where
  "decimal n =
     (if n < 10 then [char_of (48 + n)]
      else decimal (n div 10) @ [char_of (48 + n mod 10)])"

declare decimal.simps [simp del]

definition Sprintf_d :: "int \<Rightarrow> string" where
  "Sprintf_d i = (if i < 0 then CHR ''-'' # decimal (nat (- i)) else decimal (nat i))"

definition pad_right :: "nat \<Rightarrow> string \<Rightarrow> string" where
  "pad_right n s = s @ replicate (n - RuneCountInString s) CHR '' ''"

definition Println :: "world \<Rightarrow> string \<Rightarrow> world" where
  "Println w s = w\<lparr>stdout := stdout w @ s @ [CHR 0x0A]\<rparr>"

definition Print :: "world \<Rightarrow> string \<Rightarrow> world" where
  "Print w s = w\<lparr>stdout := stdout w @ s\<rparr>"

text \<open>
  The rows of the summary: one per entry of the index, with the offset as third
  column when asked for, sorted by the first column. The names are the keys of
  a map, hence distinct, so the order of the sorted rows does not depend on the
  sorting algorithm.
\<close>

definition summary_rows :: "Footer \<Rightarrow> bool \<Rightarrow> string list list" where
  "summary_rows footer withOffset =
     sort_key (\<lambda>v. v ! 0)
       (map (\<lambda>(name, info).
               if withOffset
               then [name, Sprintf_d (Num info), Sprintf_d (Offset info)]
               else [name, Sprintf_d (Num info)])
            (Infos footer))"

definition print_row :: "bool \<Rightarrow> string list \<Rightarrow> world \<Rightarrow> world" where
  "print_row withOffset v w =
     (let w1 = Print w (pad_right 10 (v ! 0) @ ''| '' @ pad_right 10 (v ! 1) @ ''|'');
          w2 = (if withOffset then Print w1 (CHR '' '' # pad_right 10 (v ! 2)) else w1)
      in Println w2 [])"

definition showBakSummary ::
  "ext \<Rightarrow> world \<Rightarrow> handle \<Rightarrow> bool \<Rightarrow> world \<times> error option" where
  "showBakSummary X w fp withOffset =
     (let w0 = emit w (EvReadFooter fp) in
      case ReadFooter X (content (streams w ! fp)) of
        Inl err \<Rightarrow> (w0, Some (ErrReadFooter err))
      | Inr footer \<Rightarrow>
          let w1 = Println w0 (''Backup Version: '' @ Sprintf_d (Version footer));
              data = summary_rows footer withOffset;
              w2 = (if withOffset
                    then Println
                           (Println (Println w1 (replicate 34 CHR ''-''))
                              (pad_right 10 ''Name'' @ ''| '' @ pad_right 10 ''Num'' @ ''| ''
                                 @ pad_right 10 ''Offset''))
                           (replicate 34 CHR ''-'')
                    else Println
                           (Println (Println w1 (replicate 23 CHR ''-''))
                              (pad_right 10 ''Name'' @ ''| '' @ pad_right 10 ''Num''))
                           (replicate 23 CHR ''-''))
          in (fold (print_row withOffset) data w2, None))"

text \<open>
  \<^verbatim>\<open>fp.Seek(offset, io.SeekStart)\<close>: the new offset is \<^verbatim>\<open>offset\<close> itself, counted from
  the start of the file; a negative one is refused. Seeking past the end is
  allowed.
\<close>

definition file_Seek :: "world \<Rightarrow> handle \<Rightarrow> 64 word \<Rightarrow> world \<times> error option" where
  "file_Seek w fp offset =
     (let w1 = emit w (EvSeek fp (sint offset)) in
      if sint offset < 0 then (w1, Some ErrInvalidArgument)
      else (w1\<lparr>streams := (streams w1)[fp := (streams w1 ! fp)\<lparr>pos := nat (sint offset)\<rparr>]\<rparr>,
            None))"

definition read_segment :: "ext \<Rightarrow> world \<Rightarrow> handle \<Rightarrow> world \<times> (error + segment)" where
  "read_segment X w fp =
     (let s = streams w ! fp;
          w1 = emit w (EvReadSegment fp (pos s))
      in case ReadSegment X (content s) (pos s) of
           Inl err \<Rightarrow> (w1, Inl err)
         | Inr (seg, n) \<Rightarrow>
             (w1\<lparr>streams := (streams w1)[fp := s\<lparr>pos := pos s + n\<rparr>]\<rparr>, Inr seg))"

definition showBakDetail ::
  "ext \<Rightarrow> world \<Rightarrow> handle \<Rightarrow> 64 word \<Rightarrow> world \<times> error option" where
  "showBakDetail X w fp offset =
     (case file_Seek w fp offset of
        (w1, Some err) \<Rightarrow> (w1, Some err)
      | (w1, None) \<Rightarrow>
          (case read_segment X w1 fp of
             (w2, Inl err) \<Rightarrow> (w2, Some (ErrReadSegment err))
           | (w2, Inr seg) \<Rightarrow>
               (Println (Println w2 (''Segment: '' @ Name seg)) (''Value: '' @ String seg),
                None)))"

text \<open>\<^verbatim>\<open>statBak\<close>; the deferred \<^verbatim>\<open>fp.Close()\<close> runs on every return after the open.\<close>

definition statBak :: "ext \<Rightarrow> world \<Rightarrow> ctx \<Rightarrow> path \<Rightarrow> world \<times> error option" where
  "statBak X w c path =
     (case os_Open w path of
        (w1, Inl err) \<Rightarrow> (w1, Some (ErrOpenFile path err))
      | (w1, Inr fp) \<Rightarrow>
          (case (if \<not> IsSet_offset c then showBakSummary X w1 fp False
                 else let offset = Int64_offset c in
                   if offset = - 1 then showBakSummary X w1 fp True
                   else showBakDetail X w1 fp offset) of
             (w2, res) \<Rightarrow> (fst (close_layer w2 fp), res)))"

subsection \<open>A concrete instance of the collaborators\<close>

text \<open>
  A small instance on which the model can be run. Its gzip format is the byte
  \<open>G\<close> followed by the payload, in which \<open>!\<close> stands for corrupt data; its
  zstd format and its encryption are the identity. The key \<open>ENC\<close> decodes to a
  passphrase-protected PEM block, any other non-empty key to an unprotected one.
  Every non-empty container has the footer of the spec's scenario, and a segment
  is the byte \<open>S\<close> followed by a one-byte name and a one-byte value.
\<close>

definition toy_gzip :: "bytes \<Rightarrow> error + bytes \<times> error option" where
  "toy_gzip d =
     (case d of
        [] \<Rightarrow> Inl ErrGzipHeader
      | c # body \<Rightarrow>
          if c \<noteq> CHR ''G'' then Inl ErrGzipHeader
          else Inr (takeWhile (\<lambda>b. b \<noteq> CHR ''!'') body,
                    if CHR ''!'' \<in> set body then Some ErrCorruptInput else None))"

definition toy_pem :: "string \<Rightarrow> pem_Block option" where
  "toy_pem s =
     (if s = [] then None
      else if s = ''ENC'' then
        Some \<lparr>Type = ''RSA PRIVATE KEY'',
              Headers = [''Proc-Type'' \<mapsto> ''4,ENCRYPTED'', ''DEK-Info'' \<mapsto> ''AES-128-CBC,00''],
              Bytes = s\<rparr>
      else Some \<lparr>Type = ''RSA PRIVATE KEY'', Headers = Map.empty, Bytes = s\<rparr>)"

definition toy_footer :: "bytes \<Rightarrow> error + Footer" where
  "toy_footer d =
     (if d = [] then Inl ErrCorruptInput
      else Inr \<lparr>Version = 1,
                Infos = [(''inode'', \<lparr>Num = 100, Offset = 0\<rparr>),
                         (''edge'', \<lparr>Num = 250, Offset = 4096\<rparr>)]\<rparr>)"

definition toy_segment :: "bytes \<Rightarrow> nat \<Rightarrow> error + segment \<times> nat" where
  "toy_segment d i =
     (if i + 2 < length d \<and> d ! i = CHR ''S''
      then Inr (\<lparr>Name = [d ! (i + 1)], String = [d ! (i + 2)]\<rparr>, 3)
      else Inl ErrCorruptInput)"

definition toy :: ext where
  "toy =
     \<lparr>loadEncrypt = (\<lambda>k. k),
      pem_Decode = toy_pem,
      ParseRsaPrivateKeyFromPem = (\<lambda>k p. Inr k),
      NewDataEncryptor = (\<lambda>k a. Inr (k, a)),
      filepath_Abs = (\<lambda>p. Inr (''/backup/'' @ p)),
      CreateStorage = (\<lambda>d. Inr d),
      blob_Get = (\<lambda>st enc fs n.
         case fs (st @ n) of None \<Rightarrow> Inl (ErrNotExist n) | Some d \<Rightarrow> Inr (d, None)),
      gzip_NewReader = toy_gzip,
      zstd_NewReader = (\<lambda>d. (d, None)),
      ReadFooter = toy_footer,
      ReadSegment = toy_segment\<rparr>"

definition disk :: "(path \<rightharpoonup> bytes) \<Rightarrow> world" where
  "disk fs =
     \<lparr>files = fs, noread = {}, nocreate = {}, wlimit = (\<lambda>p. None), passphrase = [],
      streams = [], log = [], stdout = []\<rparr>"

text \<open>
  The plain path as the specification words it: the source path with its \<^verbatim>\<open>.gz\<close> or
  \<^verbatim>\<open>.zstd\<close> suffix removed, and nothing else removed. It is compared with what
  \<^verbatim>\<open>convert\<close> returns.
\<close>

definition spec_plain_path :: "path \<Rightarrow> path" where
  "spec_plain_path p =
     (if HasSuffix p ''.gz'' then TrimSuffix p ''.gz'' else TrimSuffix p ''.zstd'')"

text \<open>
  The state a reader over a corrupt \<^verbatim>\<open>.gz\<close> file is in after a failed read: the file
  is stream 0, the gzip decoder over it is stream 1 and holds the error.
\<close>

definition broken_gzip :: world where
  "broken_gzip =
     (disk [''a.gz'' \<mapsto> ''Ghe!llo''])
       \<lparr>streams :=
          [\<lparr>kind = KFile ''a.gz'', content = ''Ghe!llo'', rfail = None, sticky = None,
             pos = 0, closed = False\<rparr>,
           \<lparr>kind = KGzip 0, content = [], rfail = Some ErrCorruptInput,
             sticky = Some ErrCorruptInput, pos = 0, closed = False\<rparr>]\<rparr>"

text \<open>
  The text of the summary report, as one string: the version line, the ruled
  heading, and one line per row.
\<close>

definition row_text :: "bool \<Rightarrow> string list \<Rightarrow> string" where
  "row_text withOffset v =
     pad_right 10 (v ! 0) @ ''| '' @ pad_right 10 (v ! 1) @ ''|''
       @ (if withOffset then CHR '' '' # pad_right 10 (v ! 2) else []) @ [CHR 0x0A]"

definition summary_text :: "Footer \<Rightarrow> bool \<Rightarrow> string" where
  "summary_text footer withOffset =
     ''Backup Version: '' @ Sprintf_d (Version footer) @ [CHR 0x0A]
     @ (if withOffset
        then replicate 34 CHR ''-'' @ [CHR 0x0A]
             @ pad_right 10 ''Name'' @ ''| '' @ pad_right 10 ''Num'' @ ''| ''
             @ pad_right 10 ''Offset'' @ [CHR 0x0A]
             @ replicate 34 CHR ''-'' @ [CHR 0x0A]
        else replicate 23 CHR ''-'' @ [CHR 0x0A]
             @ pad_right 10 ''Name'' @ ''| '' @ pad_right 10 ''Num'' @ [CHR 0x0A]
             @ replicate 23 CHR ''-'' @ [CHR 0x0A])
     @ concat (map (row_text withOffset) (summary_rows footer withOffset))"

section \<open>Properties\<close>

subsection \<open>Facts about the string functions\<close>

lemma LastIndex_lower: "- 1 \<le> LastIndex s c"
  by (induction s) (auto simp: Let_def)

lemma LastIndex_absent: "c \<notin> set s \<Longrightarrow> LastIndex s c = - 1"
  by (induction s) (auto simp: Let_def)

lemma LastIndex_present: "c \<in> set s \<Longrightarrow> 0 \<le> LastIndex s c"
  by (induction s) (auto simp: Let_def)

lemma LastIndex_upper: "LastIndex s c < int (length s)"
  by (induction s) (auto simp: Let_def)

lemma LastIndex_split:
  "0 \<le> LastIndex s c \<Longrightarrow>
     \<exists>rest. s = take (nat (LastIndex s c)) s @ c # rest \<and> c \<notin> set rest"
proof (induction s)
  case Nil
  then show ?case by simp
next
  case (Cons x xs)
  show ?case
  proof (cases "0 \<le> LastIndex xs c")
    case True
    have n: "nat (LastIndex xs c + 1) = Suc (nat (LastIndex xs c))" using True by simp
    from Cons.IH [OF True] show ?thesis
      using True by (simp add: Let_def n)
  next
    case False
    with Cons.prems have xc: "x = c" by (simp add: Let_def split: if_splits)
    from False have "c \<notin> set xs" using LastIndex_present by blast
    with False xc show ?thesis by (simp add: Let_def)
  qed
qed

lemma LastIndex_append:
  "c \<notin> set u \<Longrightarrow> LastIndex (t @ c # u) c = int (length t)"
  by (induction t) (auto simp: Let_def LastIndex_absent)

lemma HasSuffix_append: "HasSuffix s suf \<longleftrightarrow> (\<exists>t. s = t @ suf)"
  unfolding HasSuffix_def
  by (metis append_eq_conv_conj append_take_drop_id diff_add_inverse2 le_add2 length_append)

lemma slice_LastIndex_suffix:
  assumes "path = t @ CHR ''.'' # u" "CHR ''.'' \<notin> set u"
  shows "slice_to path (LastIndex path CHR ''.'') = Some t"
  using assms by (simp add: slice_to_def LastIndex_append)


subsection \<open>What closing, creating and copying do to the files\<close>

lemma close_layer_files: "files (fst (close_layer w h)) = files w"
  by (simp add: close_layer_def emit_def mark_closed_def Let_def split: kind.splits)

lemma reader_Close_files: "files (fst (reader_Close w r)) = files w"
proof (cases "close_layer w (compressR r)")
  case (Pair w1 res)
  then have f1: "files w1 = files w" using close_layer_files [of w "compressR r"] by simp
  show ?thesis
  proof (cases res)
    case None
    with Pair f1 show ?thesis
      using close_layer_files [of w1 "encryptR r"] by (simp add: reader_Close_def)
  next
    case (Some e)
    with Pair f1 show ?thesis by (simp add: reader_Close_def)
  qed
qed

lemma os_Create_Inr:
  assumes "os_Create w p = (w2, Inr wh)"
  shows "wh = length (streams w) \<and> files w2 = (files w)(p \<mapsto> []) \<and>
         streams w2 = streams w @
           [\<lparr>kind = KWriter p, content = [], rfail = None, sticky = None, pos = 0,
              closed = False\<rparr>]"
  using assms
  by (auto simp: os_Create_def emit_def alloc_def Let_def split: if_splits)

lemma io_Copy_writer:
  assumes "kind (streams w ! wh) = KWriter p"
  shows "\<exists>n. files (fst (io_Copy w wh r)) p =
           Some ((case files w p of None \<Rightarrow> [] | Some old \<Rightarrow> old)
                 @ take n (content (streams w ! compressR r)))"
proof (cases "wlimit w p")
  case None
  with assms have "files (fst (io_Copy w wh r)) p =
           Some ((case files w p of None \<Rightarrow> [] | Some old \<Rightarrow> old)
                 @ take (length (content (streams w ! compressR r)))
                     (content (streams w ! compressR r)))"
    by (simp add: io_Copy_def emit_def reader_source_def Let_def)
  then show ?thesis by blast
next
  case (Some m)
  show ?thesis
  proof (cases "m < length (content (streams w ! compressR r))")
    case True
    with assms Some have "files (fst (io_Copy w wh r)) p =
           Some ((case files w p of None \<Rightarrow> [] | Some old \<Rightarrow> old)
                 @ take m (content (streams w ! compressR r)))"
      by (simp add: io_Copy_def emit_def reader_source_def Let_def)
    then show ?thesis by blast
  next
    case False
    with assms Some have "files (fst (io_Copy w wh r)) p =
           Some ((case files w p of None \<Rightarrow> [] | Some old \<Rightarrow> old)
                 @ take (length (content (streams w ! compressR r)))
                     (content (streams w ! compressR r)))"
      by (simp add: io_Copy_def emit_def reader_source_def Let_def)
    then show ?thesis by blast
  qed
qed

lemma io_Copy_unlimited:
  assumes "kind (streams w ! wh) = KWriter p" and "wlimit w p = None"
  shows "files (fst (io_Copy w wh r)) p =
           Some ((case files w p of None \<Rightarrow> [] | Some old \<Rightarrow> old)
                 @ content (streams w ! compressR r))"
    and "snd (io_Copy w wh r) = rfail (streams w ! compressR r)"
  using assms by (simp_all add: io_Copy_def emit_def reader_source_def Let_def)

lemma convert_miss_Inr:
  assumes "convert_miss X w path nPath key algo = (w', Inr p)"
  shows "p = nPath \<and> files w' nPath \<noteq> None"
proof -
  obtain w1 r where o: "open_src X w path key algo = (w1, Inr r)"
    using assms by (auto simp: convert_miss_def split: prod.splits sum.splits)
  obtain w2 wh where c: "os_Create w1 nPath = (w2, Inr wh)"
    using assms o by (auto simp: convert_miss_def split: prod.splits sum.splits)
  have k: "kind (streams w2 ! wh) = KWriter nPath"
    using os_Create_Inr [OF c] by simp
  obtain w3 cerr where cp: "io_Copy w2 wh r = (w3, cerr)" by (cases "io_Copy w2 wh r")
  have f3: "files w3 nPath \<noteq> None" using io_Copy_writer [OF k, of r] cp by auto
  have w': "w' = fst (reader_Close (fst (close_layer w3 wh)) r)" and "p = nPath"
    using assms o c cp by (auto simp: convert_miss_def Let_def split: option.splits)
  then show ?thesis using f3 by (simp add: reader_Close_files close_layer_files)
qed

lemma convert_Returns_Inr:
  assumes "convert X w path key algo = (w', Returns (Inr p))"
    and "key \<noteq> [] \<or> isCompress path"
  shows "slice_to path (LastIndex path CHR ''.'') = Some p \<and> Exists w' p"
proof -
  from assms obtain nPath where n: "slice_to path (LastIndex path CHR ''.'') = Some nPath"
    by (auto simp: convert_def split: option.splits)
  show ?thesis
  proof (cases "Exists w nPath")
    case True
    with assms n show ?thesis by (auto simp: convert_def)
  next
    case False
    with assms n have "convert_miss X w path nPath key algo = (w', Inr p)"
      by (auto simp: convert_def split: prod.splits)
    from convert_miss_Inr [OF this] n show ?thesis by (simp add: Exists_def)
  qed
qed


subsection \<open>What \<^verbatim>\<open>open\<close> returns\<close>

lemma emit_frame [simp]:
  "streams (emit w e) = streams w" "files (emit w e) = files w"
  "nocreate (emit w e) = nocreate w" "noread (emit w e) = noread w"
  "passphrase (emit w e) = passphrase w" "stdout (emit w e) = stdout w"
  "log (emit w e) = log w @ [e]"
  by (simp_all add: emit_def)

lemma alloc_frame:
  "alloc w k d f = (w2, h) \<Longrightarrow>
     h = length (streams w) \<and> files w2 = files w \<and> nocreate w2 = nocreate w
     \<and> log w2 = log w \<and> stdout w2 = stdout w
     \<and> streams w2 = streams w @
          [\<lparr>kind = k, content = d, rfail = f, sticky = None, pos = 0, closed = False\<rparr>]"
  by (auto simp: alloc_def)

lemma os_Open_Inr:
  assumes "os_Open w p = (w1, Inr fp)"
  shows "fp = length (streams w) \<and> length (streams w1) = Suc fp \<and> files w1 = files w
         \<and> nocreate w1 = nocreate w \<and> log w1 = log w @ [EvOpen p] \<and> stdout w1 = stdout w
         \<and> (\<exists>d. files w p = Some d \<and> streams w1 = streams w @
               [\<lparr>kind = KFile p, content = d, rfail = None, sticky = None, pos = 0,
                  closed = False\<rparr>])"
  using assms
  by (auto simp: os_Open_def emit_def alloc_def Let_def split: option.splits if_splits)

lemma open_encrypted_cases:
  "case open_encrypted X w src key algo of
     (w1, Inl e) \<Rightarrow> True
   | (w1, Inr fp) \<Rightarrow>
       fp = length (streams w) \<and> files w1 = files w \<and> nocreate w1 = nocreate w
       \<and> (\<exists>s. streams w1 = streams w @ [s])"
  unfolding open_encrypted_def os_Stat_def Let_def
  by (simp add: alloc_def split: sum.split prod.split option.split)

lemma open_encrypted_Inr:
  assumes "open_encrypted X w src key algo = (w1, Inr fp)"
  shows "fp = length (streams w) \<and> length (streams w1) = Suc fp \<and> files w1 = files w
         \<and> nocreate w1 = nocreate w
         \<and> (\<exists>s. streams w1 = streams w @ [s])"
  using open_encrypted_cases [where X=X and w=w and src=src and key=key and algo=algo] assms
  by auto

lemma open_base_Inr:
  assumes "(if key \<noteq> [] then open_encrypted X w src key algo else os_Open w src) = (w1, Inr fp)"
  shows "fp = length (streams w) \<and> length (streams w1) = Suc fp \<and> files w1 = files w
         \<and> nocreate w1 = nocreate w \<and> (\<exists>s. streams w1 = streams w @ [s])"
proof (cases "key = []")
  case True
  with assms have "os_Open w src = (w1, Inr fp)" by simp
  from os_Open_Inr [OF this] show ?thesis by auto
next
  case False
  with assms have "open_encrypted X w src key algo = (w1, Inr fp)" by simp
  from open_encrypted_Inr [OF this] show ?thesis by auto
qed

lemma gz_not_zstd: "HasSuffix s ''.gz'' \<Longrightarrow> \<not> HasSuffix s ''.zstd''"
proof
  assume "HasSuffix s ''.gz''" and "HasSuffix s ''.zstd''"
  then obtain t u where "s = t @ ''.gz''" and "s = u @ ''.zstd''"
    by (auto simp: HasSuffix_append)
  then have "last (t @ ''.gz'') = last (u @ ''.zstd'')" by simp
  then show False by simp
qed

lemma open_src_Inr:
  assumes "open_src X w src key algo = (w', Inr r)"
  shows "encryptR r = length (streams w) \<and> encryptR r < length (streams w')
       \<and> compressR r < length (streams w')
       \<and> files w' = files w \<and> nocreate w' = nocreate w
       \<and> (HasSuffix src ''.gz'' \<longrightarrow>
            kind (streams w' ! compressR r) = KGzip (encryptR r) \<and> compressR r \<noteq> encryptR r)
       \<and> (\<not> HasSuffix src ''.gz'' \<and> HasSuffix src ''.zstd'' \<longrightarrow>
            kind (streams w' ! compressR r) = KZstd (encryptR r) \<and> compressR r \<noteq> encryptR r)
       \<and> (\<not> HasSuffix src ''.gz'' \<and> \<not> HasSuffix src ''.zstd'' \<longrightarrow>
            compressR r = encryptR r)"
proof -
  from assms obtain w1 fp where
    b: "(if key \<noteq> [] then open_encrypted X w src key algo else os_Open w src) = (w1, Inr fp)"
    unfolding open_src_def by (simp split: prod.splits sum.splits)
  from open_base_Inr [OF b] have
    fp: "fp = length (streams w)" and len: "length (streams w1) = Suc fp"
    and fr: "files w1 = files w" "nocreate w1 = nocreate w" by auto
  let ?wrap = "\<lambda>k d f. w1\<lparr>streams := streams w1 @
      [\<lparr>kind = k, content = d, rfail = f, sticky = None, pos = 0, closed = False\<rparr>]\<rparr>"
  consider (gz) "HasSuffix src ''.gz''"
    | (zstd) "\<not> HasSuffix src ''.gz''" "HasSuffix src ''.zstd''"
    | (plain) "\<not> HasSuffix src ''.gz''" "\<not> HasSuffix src ''.zstd''" by blast
  then show ?thesis
  proof cases
    case gz
    with assms b have "\<exists>d f. w' = ?wrap (KGzip fp) d f
                  \<and> r = \<lparr>encryptR = fp, compressR = length (streams w1)\<rparr>"
      unfolding open_src_def alloc_def by (auto split: sum.splits prod.splits)
    then obtain d f where
      "w' = ?wrap (KGzip fp) d f" "r = \<lparr>encryptR = fp, compressR = length (streams w1)\<rparr>"
      by blast
    with gz fp len fr show ?thesis by (simp add: nth_append)
  next
    case zstd
    with assms b have "\<exists>d f. w' = ?wrap (KZstd fp) d f
                  \<and> r = \<lparr>encryptR = fp, compressR = length (streams w1)\<rparr>"
      unfolding open_src_def alloc_def by (auto split: sum.splits prod.splits)
    then obtain d f where
      "w' = ?wrap (KZstd fp) d f" "r = \<lparr>encryptR = fp, compressR = length (streams w1)\<rparr>"
      by blast
    with zstd fp len fr show ?thesis by (simp add: nth_append)
  next
    case plain
    with assms b have "w' = w1" "r = \<lparr>encryptR = fp, compressR = fp\<rparr>"
      unfolding open_src_def by simp_all
    with plain fp len fr show ?thesis by simp
  qed
qed

lemma open_src_decoder:
  assumes "open_src X w src key algo = (w', Inr r)"
  shows "(HasSuffix src ''.gz'' \<longrightarrow>
            gzip_NewReader X (content (streams w' ! encryptR r))
              = Inr (content (streams w' ! compressR r), rfail (streams w' ! compressR r)))
       \<and> (\<not> HasSuffix src ''.gz'' \<and> HasSuffix src ''.zstd'' \<longrightarrow>
            zstd_NewReader X (content (streams w' ! encryptR r))
              = (content (streams w' ! compressR r), rfail (streams w' ! compressR r)))
       \<and> (key = [] \<longrightarrow>
            kind (streams w' ! encryptR r) = KFile src
            \<and> files w src = Some (content (streams w' ! encryptR r)))"
proof -
  from assms obtain w1 fp where
    b: "(if key \<noteq> [] then open_encrypted X w src key algo else os_Open w src) = (w1, Inr fp)"
    unfolding open_src_def by (simp split: prod.splits sum.splits)
  from open_base_Inr [OF b] have
    fp: "fp = length (streams w)" and len: "length (streams w1) = Suc fp" by auto
  have base: "kind (streams w1 ! fp) = KFile src \<and> files w src = Some (content (streams w1 ! fp))"
    if "key = []"
  proof -
    from b that have "os_Open w src = (w1, Inr fp)" by simp
    from os_Open_Inr [OF this] show ?thesis by auto
  qed
  let ?wrap = "\<lambda>k d f. w1\<lparr>streams := streams w1 @
      [\<lparr>kind = k, content = d, rfail = f, sticky = None, pos = 0, closed = False\<rparr>]\<rparr>"
  consider (gz) "HasSuffix src ''.gz''"
    | (zstd) "\<not> HasSuffix src ''.gz''" "HasSuffix src ''.zstd''"
    | (plain) "\<not> HasSuffix src ''.gz''" "\<not> HasSuffix src ''.zstd''" by blast
  then show ?thesis
  proof cases
    case gz
    with assms b have "\<exists>d f. gzip_NewReader X (content (streams w1 ! fp)) = Inr (d, f)
                  \<and> w' = ?wrap (KGzip fp) d f
                  \<and> r = \<lparr>encryptR = fp, compressR = length (streams w1)\<rparr>"
      unfolding open_src_def alloc_def by (auto split: sum.splits prod.splits)
    then obtain d f where
      "gzip_NewReader X (content (streams w1 ! fp)) = Inr (d, f)"
      "w' = ?wrap (KGzip fp) d f" "r = \<lparr>encryptR = fp, compressR = length (streams w1)\<rparr>"
      by blast
    with gz len base show ?thesis by (simp add: nth_append)
  next
    case zstd
    with assms b have "\<exists>d f. zstd_NewReader X (content (streams w1 ! fp)) = (d, f)
                  \<and> w' = ?wrap (KZstd fp) d f
                  \<and> r = \<lparr>encryptR = fp, compressR = length (streams w1)\<rparr>"
      unfolding open_src_def alloc_def by (auto split: sum.splits prod.splits)
    then obtain d f where
      "zstd_NewReader X (content (streams w1 ! fp)) = (d, f)"
      "w' = ?wrap (KZstd fp) d f" "r = \<lparr>encryptR = fp, compressR = length (streams w1)\<rparr>"
      by blast
    with zstd len base show ?thesis by (simp add: nth_append)
  next
    case plain
    with assms b have "w' = w1" "r = \<lparr>encryptR = fp, compressR = fp\<rparr>"
      unfolding open_src_def by simp_all
    with plain base show ?thesis by simp
  qed
qed

subsection \<open>The path of the plain artifact\<close>

text \<open>
  Claim C1, as the specification states it, says that \<^verbatim>\<open>convert\<close> removes only a
  \<^verbatim>\<open>.gz\<close> or \<^verbatim>\<open>.zstd\<close> suffix, so that an encrypted source without such a suffix
  keeps its whole name. The code cuts the path at its last dot whatever follows:
  for the encrypted source \<^verbatim>\<open>a.bin\<close> the plain artifact is \<^verbatim>\<open>a\<close>.
\<close>

theorem convert_strips_other_suffix:
  "snd (convert toy (disk [''a.bin'' \<mapsto> ''hello'']) ''a.bin'' ''k'' ''aes256gcm-rsa'')
     = Returns (Inr ''a'')
   \<and> spec_plain_path ''a.bin'' = ''a.bin''"
  by code_simp

text \<open>
  Claim C1, amended: whenever decoding is required and \<^verbatim>\<open>convert\<close> returns a path,
  that path is the source path cut at its last dot (the last dot and everything
  after it removed, whatever that suffix is); for a source ending in \<^verbatim>\<open>.gz\<close> or
  \<^verbatim>\<open>.zstd\<close> this is the source path with exactly that suffix removed.
\<close>

theorem convert_plain_path:
  assumes "key \<noteq> [] \<or> HasSuffix path ''.gz'' \<or> HasSuffix path ''.zstd''"
    and "convert X w path key algo = (w', Returns (Inr p))"
  shows "(\<exists>rest. path = p @ CHR ''.'' # rest \<and> CHR ''.'' \<notin> set rest)
       \<and> (HasSuffix path ''.gz'' \<longrightarrow> path = p @ ''.gz'')
       \<and> (HasSuffix path ''.zstd'' \<longrightarrow> path = p @ ''.zstd'')"
proof -
  have need: "key \<noteq> [] \<or> isCompress path" using assms(1) by (auto simp: isCompress_def)
  from convert_Returns_Inr [OF assms(2) need]
  have sl: "slice_to path (LastIndex path CHR ''.'') = Some p" by simp
  then have ge: "0 \<le> LastIndex path CHR ''.''" and p: "p = take (nat (LastIndex path CHR ''.'')) path"
    by (auto simp: slice_to_def split: if_splits)
  from LastIndex_split [OF ge] p
  have split: "\<exists>rest. path = p @ CHR ''.'' # rest \<and> CHR ''.'' \<notin> set rest" by simp
  have suf: "path = p @ CHR ''.'' # u" if "HasSuffix path (CHR ''.'' # u)" "CHR ''.'' \<notin> set u" for u
  proof -
    from that(1) obtain t where t: "path = t @ CHR ''.'' # u" by (auto simp: HasSuffix_append)
    from slice_LastIndex_suffix [OF t that(2)] sl have "p = t" by simp
    with t show ?thesis by simp
  qed
  have "HasSuffix path ''.gz'' \<longrightarrow> path = p @ ''.gz''" using suf [of "''gz''"] by simp
  moreover have "HasSuffix path ''.zstd'' \<longrightarrow> path = p @ ''.zstd''" using suf [of "''zstd''"] by simp
  ultimately show ?thesis using split by blast
qed

theorem convert_plain_path_witness:
  "HasSuffix ''meta.bin.gz'' ''.gz''
   \<and> snd (convert toy (disk [''meta.bin.gz'' \<mapsto> ''Ghello'']) ''meta.bin.gz'' [] [])
       = Returns (Inr ''meta.bin'')
   \<and> ''meta.bin.gz'' = ''meta.bin'' @ ''.gz''"
proof -
  let ?w = "disk [''meta.bin.gz'' \<mapsto> ''Ghello'']"
  have h1: "HasSuffix ''meta.bin.gz'' ''.gz''" by code_simp
  have s: "snd (convert toy ?w ''meta.bin.gz'' [] []) = Returns (Inr ''meta.bin'')"
    by code_simp
  then have h2: "convert toy ?w ''meta.bin.gz'' [] []
                   = (fst (convert toy ?w ''meta.bin.gz'' [] []), Returns (Inr ''meta.bin''))"
    by (simp add: prod_eq_iff)
  have "''meta.bin.gz'' = ''meta.bin'' @ ''.gz''"
    using convert_plain_path [OF _ h2] h1 by blast
  with h1 s show ?thesis by blast
qed

subsection \<open>A source without a dot\<close>

text \<open>
  Claim C3: when decoding is required (a key is given, or the path has a
  compression suffix) and the source path contains no dot, \<^verbatim>\<open>convert\<close> panics on the
  slice bound \<open>-1\<close>; it returns neither a path nor an error, and has done nothing
  to the world before.
\<close>

theorem convert_panics_without_dot:
  assumes "key \<noteq> [] \<or> HasSuffix path ''.gz'' \<or> HasSuffix path ''.zstd''"
    and "CHR ''.'' \<notin> set path"
  shows "convert X w path key algo = (w, Panics)"
  using assms by (auto simp: convert_def isCompress_def slice_to_def LastIndex_absent)

theorem convert_panics_without_dot_witness:
  "CHR ''.'' \<notin> set ''backup''
   \<and> convert toy (disk [''backup'' \<mapsto> ''x'']) ''backup'' ''k'' ''aes256gcm-rsa''
       = (disk [''backup'' \<mapsto> ''x''], Panics)"
proof -
  have h1: "''k'' \<noteq> [] \<or> HasSuffix ''backup'' ''.gz'' \<or> HasSuffix ''backup'' ''.zstd''"
    by simp
  have h2: "CHR ''.'' \<notin> set ''backup''" by simp
  from convert_panics_without_dot [OF h1 h2] h2 show ?thesis by blast
qed

subsection \<open>The cache hit\<close>

text \<open>
  Claim C7: when decoding is required and a file exists at the derived plain path,
  \<^verbatim>\<open>convert\<close> returns that path at once and leaves the world as it is: no stream is
  opened, nothing is read or written. Hence, once a call has returned a plain
  path, the file is there, and a later call with the same input returns the same
  path in every world in which that file still exists, whatever has become of
  the source.
\<close>

theorem convert_cache_hit:
  assumes "key \<noteq> [] \<or> HasSuffix path ''.gz'' \<or> HasSuffix path ''.zstd''"
  shows "(\<forall>nPath. slice_to path (LastIndex path CHR ''.'') = Some nPath \<and> Exists w nPath
            \<longrightarrow> convert X w path key algo = (w, Returns (Inr nPath)))
       \<and> (\<forall>w1 p. convert X w path key algo = (w1, Returns (Inr p))
            \<longrightarrow> Exists w1 p
               \<and> (\<forall>w2. Exists w2 p \<longrightarrow> convert X w2 path key algo = (w2, Returns (Inr p))))"
proof -
  have need: "key \<noteq> [] \<or> isCompress path" using assms by (auto simp: isCompress_def)
  have hit: "convert X v path key algo = (v, Returns (Inr n))"
    if "slice_to path (LastIndex path CHR ''.'') = Some n" "Exists v n" for v n
    using that need by (auto simp: convert_def)
  show ?thesis
    using hit convert_Returns_Inr [OF _ need] by blast
qed

theorem convert_cache_hit_witness:
  "HasSuffix ''a.gz'' ''.gz''
   \<and> snd (convert toy (disk [''a.gz'' \<mapsto> ''Ghello'']) ''a.gz'' [] []) = Returns (Inr ''a'')
   \<and> files (fst (convert toy (disk [''a.gz'' \<mapsto> ''Ghello'']) ''a.gz'' [] [])) ''a''
       = Some ''hello''
   \<and> Exists (disk [''a'' \<mapsto> ''hello'']) ''a''
   \<and> \<not> Exists (disk [''a'' \<mapsto> ''hello'']) ''a.gz''
   \<and> convert toy (disk [''a'' \<mapsto> ''hello'']) ''a.gz'' [] []
       = (disk [''a'' \<mapsto> ''hello''], Returns (Inr ''a''))"
proof -
  let ?w = "disk [''a.gz'' \<mapsto> ''Ghello'']"
  let ?w2 = "disk [''a'' \<mapsto> ''hello'']"
  have h: "[] \<noteq> ([]::string) \<or> HasSuffix ''a.gz'' ''.gz'' \<or> HasSuffix ''a.gz'' ''.zstd''"
    by code_simp
  have s: "snd (convert toy ?w ''a.gz'' [] []) = Returns (Inr ''a'')" by code_simp
  then have first: "convert toy ?w ''a.gz'' [] []
                      = (fst (convert toy ?w ''a.gz'' [] []), Returns (Inr ''a''))"
    by (simp add: prod_eq_iff)
  have f: "files (fst (convert toy ?w ''a.gz'' [] [])) ''a'' = Some ''hello''" by code_simp
  have e: "Exists ?w2 ''a''" "\<not> Exists ?w2 ''a.gz''" by (simp_all add: Exists_def disk_def)
  have "convert toy ?w2 ''a.gz'' [] [] = (?w2, Returns (Inr ''a''))"
    using convert_cache_hit [OF h, of ?w toy "[]"] first e(1) by blast
  moreover have "HasSuffix ''a.gz'' ''.gz''" by code_simp
  ultimately show ?thesis using s f e by blast
qed

subsection \<open>The fast path\<close>

text \<open>
  Claim C8: with no key and neither a \<^verbatim>\<open>.gz\<close> nor a \<^verbatim>\<open>.zstd\<close> suffix, \<^verbatim>\<open>convert\<close>
  returns the source path unchanged and the world is the one it started in: no
  file is written, no stream is opened, no operation is logged.
\<close>

theorem convert_fast_path:
  assumes "key = []" and "\<not> HasSuffix path ''.gz''" and "\<not> HasSuffix path ''.zstd''"
  shows "convert X w path key algo = (w, Returns (Inr path))"
  using assms by (simp add: convert_def isCompress_def)

theorem convert_fast_path_witness:
  "\<not> HasSuffix ''meta.bin'' ''.gz'' \<and> \<not> HasSuffix ''meta.bin'' ''.zstd''
   \<and> convert toy (disk [''meta.bin'' \<mapsto> ''x'']) ''meta.bin'' [] ''aes256gcm-rsa''
       = (disk [''meta.bin'' \<mapsto> ''x''], Returns (Inr ''meta.bin''))"
proof -
  have h1: "\<not> HasSuffix ''meta.bin'' ''.gz''" by code_simp
  have h2: "\<not> HasSuffix ''meta.bin'' ''.zstd''" by code_simp
  from convert_fast_path [OF refl h1 h2] h1 h2 show ?thesis by blast
qed

subsection \<open>The compression layer chosen by \<^verbatim>\<open>open\<close>\<close>

text \<open>
  Claim C9: the compression layer of the reader \<^verbatim>\<open>open\<close> returns depends on the
  suffix of the source path alone, whatever the key, the algorithm and the
  contents. For \<^verbatim>\<open>.gz\<close> it is a new stream, the gzip decoder applied to the base
  stream: it yields the bytes, and ends with the error, that \<^verbatim>\<open>gzip.NewReader\<close>
  gives on the bytes of the base stream. For \<^verbatim>\<open>.zstd\<close> it is likewise the zstd
  decoder applied to the base stream. For every other path it is the base stream
  itself, so that both layers are one object. Without a key the base stream is
  the source file with its bytes.
\<close>

theorem open_compression_layer:
  assumes "open_src X w src key algo = (w', Inr r)"
  shows "(HasSuffix src ''.gz'' \<longrightarrow>
            kind (streams w' ! compressR r) = KGzip (encryptR r) \<and> compressR r \<noteq> encryptR r
            \<and> gzip_NewReader X (content (streams w' ! encryptR r))
                = Inr (content (streams w' ! compressR r), rfail (streams w' ! compressR r)))
       \<and> (HasSuffix src ''.zstd'' \<longrightarrow>
            kind (streams w' ! compressR r) = KZstd (encryptR r) \<and> compressR r \<noteq> encryptR r
            \<and> zstd_NewReader X (content (streams w' ! encryptR r))
                = (content (streams w' ! compressR r), rfail (streams w' ! compressR r)))
       \<and> (\<not> HasSuffix src ''.gz'' \<and> \<not> HasSuffix src ''.zstd'' \<longrightarrow>
            compressR r = encryptR r)
       \<and> (key = [] \<longrightarrow>
            kind (streams w' ! encryptR r) = KFile src
            \<and> files w src = Some (content (streams w' ! encryptR r)))"
  using open_src_Inr [OF assms] open_src_decoder [OF assms] gz_not_zstd [of src] by blast

theorem open_compression_layer_witness:
  "HasSuffix ''a.gz'' ''.gz''
   \<and> snd (open_src toy (disk [''a.gz'' \<mapsto> ''Ghello'']) ''a.gz'' [] [])
       = Inr \<lparr>encryptR = 0, compressR = 1\<rparr>
   \<and> kind (streams (fst (open_src toy (disk [''a.gz'' \<mapsto> ''Ghello'']) ''a.gz'' [] [])) ! 1)
       = KGzip 0
   \<and> content (streams (fst (open_src toy (disk [''a.gz'' \<mapsto> ''Ghello'']) ''a.gz'' [] [])) ! 0)
       = ''Ghello''
   \<and> content (streams (fst (open_src toy (disk [''a.gz'' \<mapsto> ''Ghello'']) ''a.gz'' [] [])) ! 1)
       = ''hello''
   \<and> \<not> HasSuffix ''a.bin'' ''.gz'' \<and> \<not> HasSuffix ''a.bin'' ''.zstd''
   \<and> snd (open_src toy (disk [''a.bin'' \<mapsto> ''hello'']) ''a.bin'' [] [])
       = Inr \<lparr>encryptR = 0, compressR = 0\<rparr>
   \<and> HasSuffix ''a.zstd'' ''.zstd''
   \<and> kind (streams (fst (open_src toy (disk [''a.zstd'' \<mapsto> ''hello'']) ''a.zstd'' [] [])) ! 1)
       = KZstd 0
   \<and> content (streams (fst (open_src toy (disk [''a.zstd'' \<mapsto> ''hello'']) ''a.zstd'' [] [])) ! 1)
       = ''hello''"
proof -
  let ?z = "open_src toy (disk [''a.zstd'' \<mapsto> ''hello'']) ''a.zstd'' [] []"
  have zs: "HasSuffix ''a.zstd'' ''.zstd''" by code_simp
  have sz: "snd ?z = Inr \<lparr>encryptR = 0, compressR = 1\<rparr>" by code_simp
  then have hz: "?z = (fst ?z, Inr \<lparr>encryptR = 0, compressR = 1\<rparr>)" by (simp add: prod_eq_iff)
  note tz = open_compression_layer [OF hz]
  have kz: "kind (streams (fst ?z) ! 1) = KZstd 0" using tz zs by simp
  have bz: "content (streams (fst ?z) ! 0) = ''hello''"
    using tz by (simp add: disk_def)
  have z0: "zstd_NewReader toy ''hello'' = (''hello'', None)" by (simp add: toy_def)
  have ez: "zstd_NewReader toy (content (streams (fst ?z) ! 0))
          = (content (streams (fst ?z) ! 1), rfail (streams (fst ?z) ! 1))"
    using tz zs by simp
  have cz: "content (streams (fst ?z) ! 1) = ''hello''"
    using ez [unfolded bz z0] by simp
  let ?o = "open_src toy (disk [''a.gz'' \<mapsto> ''Ghello'']) ''a.gz'' [] []"
  let ?p = "open_src toy (disk [''a.bin'' \<mapsto> ''hello'']) ''a.bin'' [] []"
  have gz: "HasSuffix ''a.gz'' ''.gz''" by code_simp
  have ng: "\<not> HasSuffix ''a.bin'' ''.gz''" "\<not> HasSuffix ''a.bin'' ''.zstd''" by code_simp+
  have s: "snd ?o = Inr \<lparr>encryptR = 0, compressR = 1\<rparr>" by code_simp
  then have h: "?o = (fst ?o, Inr \<lparr>encryptR = 0, compressR = 1\<rparr>)" by (simp add: prod_eq_iff)
  note t = open_compression_layer [OF h]
  have k: "kind (streams (fst ?o) ! 1) = KGzip 0" using t gz by simp
  have b: "content (streams (fst ?o) ! 0) = ''Ghello''" using t by (simp add: disk_def)
  have g0: "gzip_NewReader toy ''Ghello'' = Inr (''hello'', None)"
    by (simp add: toy_def toy_gzip_def)
  have eg: "gzip_NewReader toy (content (streams (fst ?o) ! 0))
          = Inr (content (streams (fst ?o) ! 1), rfail (streams (fst ?o) ! 1))"
    using t gz by simp
  have c: "content (streams (fst ?o) ! 1) = ''hello''"
    using eg [unfolded b g0] by simp
  have sp: "snd ?p = Inr \<lparr>encryptR = 0, compressR = 0\<rparr>" by code_simp
  then have hp: "?p = (fst ?p, Inr \<lparr>encryptR = 0, compressR = 0\<rparr>)" by (simp add: prod_eq_iff)
  have "compressR \<lparr>encryptR = 0, compressR = 0\<rparr> = encryptR \<lparr>encryptR = 0::nat, compressR = 0::nat\<rparr>"
    using open_compression_layer [OF hp] ng by blast
  with gz ng s k b c sp zs kz cz show ?thesis by blast
qed

subsection \<open>The passphrase check\<close>

text \<open>
  Claim C4: for every algorithm (and every source path), when a key is given, the
  passphrase variable is empty, and the key decodes to a PEM block whose header
  marks it as encrypted, \<^verbatim>\<open>open\<close> fails with the passphrase-required error; the
  only thing it has done by then is load the key: the key parser, the encryptor
  and the source have not been touched.
\<close>

theorem open_passphrase_required:
  assumes "key \<noteq> []" and "passphrase w = []"
    and "pem_Decode X (loadEncrypt X key) = Some block"
    and "Contains (header block ''Proc-Type'') ''ENCRYPTED''"
    and "IsEncryptedPEMBlock block"
  shows "open_src X w src key algo = (emit w (EvLoadKey key), Inl ErrPassphraseRequired)"
  using assms
  by (simp add: open_src_def open_encrypted_def needs_passphrase_def Let_def)

theorem open_passphrase_required_witness:
  "passphrase (disk [''a.bin'' \<mapsto> ''hello'']) = []
   \<and> open_src toy (disk [''a.bin'' \<mapsto> ''hello'']) ''a.bin'' ''ENC'' ''chacha20-rsa''
       = (emit (disk [''a.bin'' \<mapsto> ''hello'']) (EvLoadKey ''ENC''), Inl ErrPassphraseRequired)"
proof -
  let ?b = "\<lparr>Type = ''RSA PRIVATE KEY'',
             Headers = [''Proc-Type'' \<mapsto> ''4,ENCRYPTED'', ''DEK-Info'' \<mapsto> ''AES-128-CBC,00''],
             Bytes = ''ENC''\<rparr>"
  have h1: "''ENC'' \<noteq> []" by simp
  have h2: "passphrase (disk [''a.bin'' \<mapsto> ''hello'']) = []" by (simp add: disk_def)
  have h3: "pem_Decode toy (loadEncrypt toy ''ENC'') = Some ?b"
    by (simp add: toy_def toy_pem_def)
  have h4: "Contains (header ?b ''Proc-Type'') ''ENCRYPTED''"
    by (simp add: header_def HasPrefix_def)
  have h5: "IsEncryptedPEMBlock ?b" by (simp add: IsEncryptedPEMBlock_def)
  from open_passphrase_required [OF h1 h2 h3 h4 h5] h2 show ?thesis by blast
qed

subsection \<open>Creating the plain file\<close>




text \<open>
  What the file holds afterwards: a prefix of the bytes the reader yields, and all
  of them when no write fails; nothing of what was there before.
\<close>

lemma convert_miss_writes_prefix:
  assumes "open_src X w path key algo = (w1, Inr r)"
    and "nPath \<noteq> []" and "nPath \<notin> nocreate w"
  shows "\<exists>n. files (fst (convert_miss X w path nPath key algo)) nPath
               = Some (take n (content (streams w1 ! compressR r)))"
proof -
  note o = open_src_Inr [OF assms(1)]
  from o assms(3) have nc: "nPath \<notin> nocreate w1" by simp
  obtain w2 wh where c: "os_Create w1 nPath = (w2, Inr wh)"
    using assms(2) nc by (auto simp: os_Create_def alloc_def Let_def)
  note cr = os_Create_Inr [OF c]
  have k: "kind (streams w2 ! wh) = KWriter nPath" using cr by simp
  have same: "streams w2 ! compressR r = streams w1 ! compressR r"
    using cr o by (simp add: nth_append)
  obtain w3 cerr where cp: "io_Copy w2 wh r = (w3, cerr)" by (cases "io_Copy w2 wh r")
  from io_Copy_writer [OF k, of r] cp cr same
  obtain n where f3: "files w3 nPath = Some (take n (content (streams w1 ! compressR r)))"
    by auto
  have "fst (convert_miss X w path nPath key algo)
          = fst (reader_Close (fst (close_layer w3 wh)) r)"
    using assms(1) c cp by (simp add: convert_miss_def Let_def)
  then have "files (fst (convert_miss X w path nPath key algo)) nPath
               = Some (take n (content (streams w1 ! compressR r)))"
    using f3 by (simp add: reader_Close_files close_layer_files)
  then show ?thesis by blast
qed

subsection \<open>Closing the composed reader\<close>

lemma close_layer_log: "log (fst (close_layer w h)) = log w @ [EvClose h]"
  by (simp add: close_layer_def mark_closed_def Let_def split: kind.splits)

lemma reader_Close_log:
  "log (fst (reader_Close w r)) =
     log w @ EvClose (compressR r) #
       (if snd (close_layer w (compressR r)) = None \<and> encryptR r \<noteq> compressR r
        then [EvClose (encryptR r)] else [])"
proof (cases "close_layer w (compressR r)")
  case (Pair w1 res)
  then have l1: "log w1 = log w @ [EvClose (compressR r)]"
    using close_layer_log [of w "compressR r"] by simp
  show ?thesis
  proof (cases res)
    case None
    with Pair l1 show ?thesis
      using close_layer_log [of w1 "encryptR r"] by (simp add: reader_Close_def)
  next
    case (Some e)
    with Pair l1 show ?thesis by (simp add: reader_Close_def)
  qed
qed

lemma reader_Close_alias:
  "encryptR r = compressR r \<Longrightarrow> reader_Close w r = close_layer w (compressR r)"
  by (cases "close_layer w (compressR r)") (auto simp: reader_Close_def split: option.splits)

lemma reader_Close_error_skips_base:
  assumes "close_layer w (compressR r) = (w1, Some err)"
  shows "reader_Close w r = (w1, Some err)"
  using assms by (simp add: reader_Close_def)

text \<open>
  Claim C6 says that \<^verbatim>\<open>Close\<close> closes the compression layer and then the base layer
  exactly when the two differ. The lemmas above show the order and the aliasing
  case. When the close of the compression layer returns an error, though, the
  method returns at once: here the layers differ (a gzip decoder over a file),
  the decoder holds the error of a failed read, and the file is not closed.
\<close>

theorem reader_Close_leaves_base_open:
  "encryptR \<lparr>encryptR = 0, compressR = 1\<rparr> \<noteq> compressR \<lparr>encryptR = 0, compressR = 1\<rparr>
   \<and> snd (reader_Close broken_gzip \<lparr>encryptR = 0, compressR = 1\<rparr>) = Some ErrCorruptInput
   \<and> log (fst (reader_Close broken_gzip \<lparr>encryptR = 0, compressR = 1\<rparr>)) = [EvClose 1]
   \<and> \<not> closed (streams (fst (reader_Close broken_gzip \<lparr>encryptR = 0, compressR = 1\<rparr>)) ! 0)"
  by code_simp

subsection \<open>Release on the error paths\<close>

text \<open>
  Claim C5 says that every stream is released on every exit path. A \<^verbatim>\<open>.gz\<close> source
  whose payload is corrupt makes the copy fail; the deferred calls close the
  writer and call \<^verbatim>\<open>Close\<close> on the reader, whose gzip layer returns the decoder's
  error, and the file under it stays open: no \<^verbatim>\<open>Close\<close> of stream 0 is logged.
\<close>

theorem convert_leaks_base_stream:
  "snd (convert toy (disk [''a.gz'' \<mapsto> ''Ghe!llo'']) ''a.gz'' [] [])
     = Returns (Inl (ErrConvert ''a.gz'' ''a'' ErrCorruptInput))
   \<and> map kind (streams (fst (convert toy (disk [''a.gz'' \<mapsto> ''Ghe!llo'']) ''a.gz'' [] [])))
     = [KFile ''a.gz'', KGzip 0, KWriter ''a'']
   \<and> map closed (streams (fst (convert toy (disk [''a.gz'' \<mapsto> ''Ghe!llo'']) ''a.gz'' [] [])))
     = [False, True, True]
   \<and> log (fst (convert toy (disk [''a.gz'' \<mapsto> ''Ghe!llo'']) ''a.gz'' [] []))
     = [EvOpen ''a.gz'', EvCreate ''a'', EvCopy 2 1, EvClose 2, EvClose 1]"
  by code_simp

text \<open>
  A second path that leaves the file open: the gzip header is not valid, and
  \<^verbatim>\<open>open\<close> returns the error without closing the file it has opened.
\<close>

lemma open_leaks_base_stream:
  "snd (open_src toy (disk [''a.gz'' \<mapsto> ''not gzip'']) ''a.gz'' [] []) = Inl ErrGzipHeader
   \<and> map closed (streams (fst (open_src toy (disk [''a.gz'' \<mapsto> ''not gzip'']) ''a.gz'' [] [])))
     = [False]
   \<and> log (fst (open_src toy (disk [''a.gz'' \<mapsto> ''not gzip'']) ''a.gz'' [] []))
     = [EvOpen ''a.gz'']"
  by code_simp

subsection \<open>The three modes of \<^verbatim>\<open>statBak\<close>\<close>

lemma Println_frame [simp]:
  "stdout (Println w s) = stdout w @ s @ [CHR 0x0A]" "log (Println w s) = log w"
  "streams (Println w s) = streams w" "files (Println w s) = files w"
  by (simp_all add: Println_def)

lemma Print_frame [simp]:
  "stdout (Print w s) = stdout w @ s" "log (Print w s) = log w"
  "streams (Print w s) = streams w" "files (Print w s) = files w"
  by (simp_all add: Print_def)

lemma print_row_stdout: "stdout (print_row b v w) = stdout w @ row_text b v"
  by (simp add: print_row_def row_text_def Let_def)

lemma fold_print_row_stdout:
  "stdout (fold (print_row b) rows w) = stdout w @ concat (map (row_text b) rows)"
  by (induction rows arbitrary: w) (simp_all add: print_row_stdout)

lemma showBakSummary_ok:
  assumes "ReadFooter X (content (streams w ! fp)) = Inr footer"
  shows "snd (showBakSummary X w fp b) = None"
    and "stdout (fst (showBakSummary X w fp b)) = stdout w @ summary_text footer b"
  using assms
  by (simp_all add: showBakSummary_def Let_def fold_print_row_stdout summary_text_def)

lemma summary_rows_set:
  "set (summary_rows footer False) = (\<lambda>(name, info). [name, Sprintf_d (Num info)]) ` set (Infos footer)"
  "set (summary_rows footer True) =
     (\<lambda>(name, info). [name, Sprintf_d (Num info), Sprintf_d (Offset info)]) ` set (Infos footer)"
  by (simp_all add: summary_rows_def)

lemma summary_rows_sorted: "sorted (map (\<lambda>v. v ! 0) (summary_rows footer b))"
  by (simp add: summary_rows_def)

lemma showBakDetail_log:
  assumes "fp < length (streams w)"
  shows "log (fst (showBakDetail X w fp off)) =
     log w @ EvSeek fp (sint off) #
       (if sint off < 0 then [] else [EvReadSegment fp (nat (sint off))])"
  using assms
  by (simp add: showBakDetail_def file_Seek_def read_segment_def Let_def
           split: sum.split prod.split)

lemma showBakDetail_ok:
  assumes "fp < length (streams w)" and "0 \<le> sint off"
    and "ReadSegment X (content (streams w ! fp)) (nat (sint off)) = Inr (seg, n)"
  shows "snd (showBakDetail X w fp off) = None"
    and "stdout (fst (showBakDetail X w fp off)) =
           stdout w @ ''Segment: '' @ Name seg @ [CHR 0x0A]
                    @ ''Value: '' @ String seg @ [CHR 0x0A]"
  using assms
  by (simp_all add: showBakDetail_def file_Seek_def read_segment_def Let_def)


text \<open>
  Claim C10: once the file is open, \<^verbatim>\<open>statBak\<close> runs the summary without offsets
  when the flag is unset, the summary with offsets when the flag is \<open>-1\<close>, and
  the detail view in every other case. When the footer can be read, the summary
  prints the version, the heading and the sorted rows; the rows have the name and
  the count, and with offsets also the offset of every segment of the index. The
  detail view seeks to the given offset counted from the start of the file and,
  unless the seek is refused, reads one segment at that offset and no other; when
  the segment can be read, its name and value are printed.
\<close>

theorem statBak_modes:
  assumes "os_Open w path = (w1, Inr fp)"
  shows "(offset_flag c = None \<longrightarrow>
            statBak X w c path =
              (case showBakSummary X w1 fp False of (w2, res) \<Rightarrow> (fst (close_layer w2 fp), res)))
       \<and> (offset_flag c = Some (- 1) \<longrightarrow>
            statBak X w c path =
              (case showBakSummary X w1 fp True of (w2, res) \<Rightarrow> (fst (close_layer w2 fp), res)))
       \<and> (\<forall>off. offset_flag c = Some off \<and> off \<noteq> - 1 \<longrightarrow>
            statBak X w c path =
              (case showBakDetail X w1 fp off of (w2, res) \<Rightarrow> (fst (close_layer w2 fp), res)))
       \<and> (\<forall>footer b. ReadFooter X (content (streams w1 ! fp)) = Inr footer \<longrightarrow>
            snd (showBakSummary X w1 fp b) = None
            \<and> stdout (fst (showBakSummary X w1 fp b)) = stdout w1 @ summary_text footer b
            \<and> set (summary_rows footer False) =
                (\<lambda>(name, info). [name, Sprintf_d (Num info)]) ` set (Infos footer)
            \<and> set (summary_rows footer True) =
                (\<lambda>(name, info). [name, Sprintf_d (Num info), Sprintf_d (Offset info)])
                  ` set (Infos footer))
       \<and> (\<forall>off. log (fst (showBakDetail X w1 fp off)) =
              log w1 @ EvSeek fp (sint off) #
                (if sint off < 0 then [] else [EvReadSegment fp (nat (sint off))]))
       \<and> (\<forall>off seg n. 0 \<le> sint off
              \<and> ReadSegment X (content (streams w1 ! fp)) (nat (sint off)) = Inr (seg, n) \<longrightarrow>
            snd (showBakDetail X w1 fp off) = None
            \<and> stdout (fst (showBakDetail X w1 fp off)) =
                stdout w1 @ ''Segment: '' @ Name seg @ [CHR 0x0A]
                          @ ''Value: '' @ String seg @ [CHR 0x0A])"
proof -
  have v: "fp < length (streams w1)" using os_Open_Inr [OF assms] by simp
  have unset: "offset_flag c = None \<longrightarrow>
            statBak X w c path =
              (case showBakSummary X w1 fp False of (w2, res) \<Rightarrow> (fst (close_layer w2 fp), res))"
    using assms by (simp add: statBak_def IsSet_offset_def)
  have all: "offset_flag c = Some (- 1) \<longrightarrow>
            statBak X w c path =
              (case showBakSummary X w1 fp True of (w2, res) \<Rightarrow> (fst (close_layer w2 fp), res))"
    using assms by (simp add: statBak_def IsSet_offset_def Int64_offset_def)
  have one: "\<forall>off. offset_flag c = Some off \<and> off \<noteq> - 1 \<longrightarrow>
            statBak X w c path =
              (case showBakDetail X w1 fp off of (w2, res) \<Rightarrow> (fst (close_layer w2 fp), res))"
    using assms by (simp add: statBak_def IsSet_offset_def Int64_offset_def)
  have summ: "\<forall>footer b. ReadFooter X (content (streams w1 ! fp)) = Inr footer \<longrightarrow>
            snd (showBakSummary X w1 fp b) = None
            \<and> stdout (fst (showBakSummary X w1 fp b)) = stdout w1 @ summary_text footer b
            \<and> set (summary_rows footer False) =
                (\<lambda>(name, info). [name, Sprintf_d (Num info)]) ` set (Infos footer)
            \<and> set (summary_rows footer True) =
                (\<lambda>(name, info). [name, Sprintf_d (Num info), Sprintf_d (Offset info)])
                  ` set (Infos footer)"
    using showBakSummary_ok summary_rows_set by blast
  have dlog: "\<forall>off. log (fst (showBakDetail X w1 fp off)) =
              log w1 @ EvSeek fp (sint off) #
                (if sint off < 0 then [] else [EvReadSegment fp (nat (sint off))])"
    using showBakDetail_log [OF v] by blast
  have dok: "\<forall>off seg n. 0 \<le> sint off
              \<and> ReadSegment X (content (streams w1 ! fp)) (nat (sint off)) = Inr (seg, n) \<longrightarrow>
            snd (showBakDetail X w1 fp off) = None
            \<and> stdout (fst (showBakDetail X w1 fp off)) =
                stdout w1 @ ''Segment: '' @ Name seg @ [CHR 0x0A]
                          @ ''Value: '' @ String seg @ [CHR 0x0A]"
    using showBakDetail_ok [OF v] by blast
  from unset all one summ dlog dok show ?thesis by blast
qed

theorem statBak_modes_witness:
  "snd (os_Open (disk [''a'' \<mapsto> ''SabScd'']) ''a'') = Inr 0
   \<and> statBak toy (disk [''a'' \<mapsto> ''SabScd'']) \<lparr>offset_flag = None\<rparr> ''a''
       = (case showBakSummary toy (fst (os_Open (disk [''a'' \<mapsto> ''SabScd'']) ''a'')) 0 False of
            (w2, res) \<Rightarrow> (fst (close_layer w2 0), res))
   \<and> statBak toy (disk [''a'' \<mapsto> ''SabScd'']) \<lparr>offset_flag = Some (- 1)\<rparr> ''a''
       = (case showBakSummary toy (fst (os_Open (disk [''a'' \<mapsto> ''SabScd'']) ''a'')) 0 True of
            (w2, res) \<Rightarrow> (fst (close_layer w2 0), res))
   \<and> statBak toy (disk [''a'' \<mapsto> ''SabScd'']) \<lparr>offset_flag = Some 3\<rparr> ''a''
       = (case showBakDetail toy (fst (os_Open (disk [''a'' \<mapsto> ''SabScd'']) ''a'')) 0 3 of
            (w2, res) \<Rightarrow> (fst (close_layer w2 0), res))
   \<and> log (fst (showBakDetail toy (fst (os_Open (disk [''a'' \<mapsto> ''SabScd'']) ''a'')) 0 3))
       = [EvOpen ''a'', EvSeek 0 3, EvReadSegment 0 3]
   \<and> stdout (fst (statBak toy (disk [''a'' \<mapsto> ''SabScd'']) \<lparr>offset_flag = Some 3\<rparr> ''a''))
       = ''Segment: c'' @ [CHR 0x0A] @ ''Value: d'' @ [CHR 0x0A]
   \<and> stdout (fst (statBak toy (disk [''a'' \<mapsto> ''SabScd'']) \<lparr>offset_flag = None\<rparr> ''a''))
       = ''Backup Version: 1'' @ [CHR 0x0A]
         @ replicate 23 CHR ''-'' @ [CHR 0x0A]
         @ ''Name      | Num       '' @ [CHR 0x0A]
         @ replicate 23 CHR ''-'' @ [CHR 0x0A]
         @ ''edge      | 250       |'' @ [CHR 0x0A]
         @ ''inode     | 100       |'' @ [CHR 0x0A]
   \<and> stdout (fst (statBak toy (disk [''a'' \<mapsto> ''SabScd'']) \<lparr>offset_flag = Some (- 1)\<rparr> ''a''))
       = ''Backup Version: 1'' @ [CHR 0x0A]
         @ replicate 34 CHR ''-'' @ [CHR 0x0A]
         @ ''Name      | Num       | Offset    '' @ [CHR 0x0A]
         @ replicate 34 CHR ''-'' @ [CHR 0x0A]
         @ ''edge      | 250       | 4096      '' @ [CHR 0x0A]
         @ ''inode     | 100       | 0         '' @ [CHR 0x0A]"
proof -
  let ?w = "disk [''a'' \<mapsto> ''SabScd'']"
  let ?w1 = "fst (os_Open ?w ''a'')"
  have s: "snd (os_Open ?w ''a'') = Inr 0" by code_simp
  then have h: "os_Open ?w ''a'' = (?w1, Inr 0)" by (simp add: prod_eq_iff)
  have unset: "statBak toy ?w \<lparr>offset_flag = None\<rparr> ''a''
              = (case showBakSummary toy ?w1 0 False of (w2, res) \<Rightarrow> (fst (close_layer w2 0), res))"
    using statBak_modes [OF h, where X = toy and c = "\<lparr>offset_flag = None\<rparr>"] by simp
  have every: "statBak toy ?w \<lparr>offset_flag = Some (- 1)\<rparr> ''a''
              = (case showBakSummary toy ?w1 0 True of (w2, res) \<Rightarrow> (fst (close_layer w2 0), res))"
    using statBak_modes [OF h, where X = toy and c = "\<lparr>offset_flag = Some (- 1)\<rparr>"] by simp
  note m = statBak_modes [OF h, where X = toy and c = "\<lparr>offset_flag = Some 3\<rparr>"]
  have ne: "(3 :: 64 word) \<noteq> - 1" by simp
  have one: "statBak toy ?w \<lparr>offset_flag = Some 3\<rparr> ''a''
              = (case showBakDetail toy ?w1 0 3 of (w2, res) \<Rightarrow> (fst (close_layer w2 0), res))"
    using m ne by simp
  have l1: "log ?w1 = [EvOpen ''a'']" using os_Open_Inr [OF h] by (simp add: disk_def)
  have si: "sint (3 :: 64 word) = 3" by simp
  have "log (fst (showBakDetail toy ?w1 0 3))
          = log ?w1 @ EvSeek 0 (sint (3 :: 64 word)) #
              (if sint (3 :: 64 word) < 0 then [] else [EvReadSegment 0 (nat (sint (3 :: 64 word)))])"
    using m by blast
  then have lg: "log (fst (showBakDetail toy ?w1 0 3)) = [EvOpen ''a'', EvSeek 0 3, EvReadSegment 0 3]"
    by (simp add: l1 si)
  have out: "stdout (fst (statBak toy ?w \<lparr>offset_flag = Some 3\<rparr> ''a''))
               = ''Segment: c'' @ [CHR 0x0A] @ ''Value: d'' @ [CHR 0x0A]"
    by code_simp
  have out0: "stdout (fst (statBak toy ?w \<lparr>offset_flag = None\<rparr> ''a''))
       = ''Backup Version: 1'' @ [CHR 0x0A]
         @ replicate 23 CHR ''-'' @ [CHR 0x0A]
         @ ''Name      | Num       '' @ [CHR 0x0A]
         @ replicate 23 CHR ''-'' @ [CHR 0x0A]
         @ ''edge      | 250       |'' @ [CHR 0x0A]
         @ ''inode     | 100       |'' @ [CHR 0x0A]"
    by code_simp
  have out1: "stdout (fst (statBak toy ?w \<lparr>offset_flag = Some (- 1)\<rparr> ''a''))
       = ''Backup Version: 1'' @ [CHR 0x0A]
         @ replicate 34 CHR ''-'' @ [CHR 0x0A]
         @ ''Name      | Num       | Offset    '' @ [CHR 0x0A]
         @ replicate 34 CHR ''-'' @ [CHR 0x0A]
         @ ''edge      | 250       | 4096      '' @ [CHR 0x0A]
         @ ''inode     | 100       | 0         '' @ [CHR 0x0A]"
    by code_simp
  from s unset every one lg out out0 out1 show ?thesis by blast
qed

end
